theory Spec2Isabelle
  imports Complex_Main "HOL-Library.Word" "HOL-Library.Sublist"
begin

unbundle bit_operations_syntax

section \<open>Values, objects and the heap\<close>

text \<open>
  The helpers of \<^verbatim>\<open>src/utils/pure.ts\<close> work on arbitrary JavaScript values. A value is
  a primitive or a reference to an object; objects live in a heap, so that identity
  (``the same instance'') and in-place mutation can be stated.

  Numbers are doubles without their rounding: a finite double is the rational it denotes,
  and a sum, difference or product is exact as long as it stays within the range of
  doubles; beyond the largest double it is the infinity of its sign, as in IEEE
  arithmetic. Rounding to 53 significant bits and the negative zero are not modelled.
  \<open>NaN\<close> comes from coercing \<^verbatim>\<open>undefined\<close> and from the infinities.
\<close>

datatype jsnum = Fin rat | PosInf | NegInf | NaN

type_synonym addr = nat

datatype jsval =
    Undefined
  | Null
  | JBool bool
  | JNum jsnum
  | JStr string
  | Ref addr

text \<open>
  An object is an array (a dense list of elements, without holes or extra named properties)
  or a plain keyed mapping (its own enumerable string-keyed properties, in insertion
  order). Prototypes, accessors, symbol keys and the other built-in object kinds are not
  represented.
\<close>

datatype obj = Arr "jsval list" | Obj "(string \<times> jsval) list"

text \<open>
  The heap is the list of all objects allocated so far; an address is an index into it.
  Allocation appends, so a fresh object never has the address of an existing one.
\<close>

type_synonym heap = "obj list"

definition cell :: "heap \<Rightarrow> addr \<Rightarrow> obj option" where
  "cell h a = (if a < length h then Some (h ! a) else None)"

definition alloc :: "heap \<Rightarrow> obj \<Rightarrow> jsval \<times> heap" where
  "alloc h ob = (Ref (length h), h @ [ob])"

text \<open>
  What a call does: it returns a result, or the model's recursion budget ran out before it
  returned (a call that runs out for every budget never returns; in JavaScript the stack
  overflows), or it left the value model above.
\<close>

datatype 'a outcome = Returns 'a | OutOfFuel | Unmodelled

subsection \<open>Truthiness and type tests\<close>

fun num_truthy :: "jsnum \<Rightarrow> bool" where
  "num_truthy (Fin x) = (x \<noteq> 0)"
| "num_truthy PosInf = True"
| "num_truthy NegInf = True"
| "num_truthy NaN = False"

fun truthy :: "jsval \<Rightarrow> bool" where
  "truthy Undefined = False"
| "truthy Null = False"
| "truthy (JBool b) = b"
| "truthy (JNum x) = num_truthy x"
| "truthy (JStr s) = (s \<noteq> [])"
| "truthy (Ref a) = True"

text \<open>\<^verbatim>\<open>typeof v === 'boolean'\<close>\<close>

fun is_boolean :: "jsval \<Rightarrow> bool" where
  "is_boolean (JBool b) = True"
| "is_boolean v = False"

text \<open>A reference to an address the heap does not hold: no JavaScript value is one.\<close>

fun dangling :: "heap \<Rightarrow> jsval \<Rightarrow> bool" where
  "dangling h (Ref a) = (cell h a = None)"
| "dangling h v = False"

text \<open>
  Modelled from the spec: \<^verbatim>\<open>isObject\<close> is imported from \<^verbatim>\<open>./is\<close>, which is not among
  the sources. The specification calls the values it accepts ``container types (mapping or
  sequence)'' and the others ``non-container scalars (including null/undefined)''.
\<close>

fun isObject :: "heap \<Rightarrow> jsval \<Rightarrow> bool" where
  "isObject h (Ref a) = (case cell h a of Some ob \<Rightarrow> True | None \<Rightarrow> False)"
| "isObject h v = False"

text \<open>\<^verbatim>\<open>Array.isArray\<close>\<close>

fun isArray :: "heap \<Rightarrow> jsval \<Rightarrow> bool" where
  "isArray h (Ref a) = (case cell h a of Some (Arr items) \<Rightarrow> True | _ \<Rightarrow> False)"
| "isArray h v = False"

subsection \<open>Reading and writing objects\<close>

text \<open>The elements of an array (of anything else: none).\<close>

fun elements :: "heap \<Rightarrow> jsval \<Rightarrow> jsval list" where
  "elements h (Ref a) = (case cell h a of Some (Arr items) \<Rightarrow> items | _ \<Rightarrow> [])"
| "elements h v = []"

text \<open>The own properties of a mapping (of anything else: none).\<close>

fun own_props :: "heap \<Rightarrow> jsval \<Rightarrow> (string \<times> jsval) list" where
  "own_props h (Ref a) = (case cell h a of Some (Obj props) \<Rightarrow> props | _ \<Rightarrow> [])"
| "own_props h v = []"

text \<open>\<^verbatim>\<open>Object.keys(o)\<close> for a mapping \<open>o\<close>\<close>

definition Object_keys :: "heap \<Rightarrow> jsval \<Rightarrow> string list" where
  "Object_keys h v = map fst (own_props h v)"

text \<open>\<^verbatim>\<open>o[key]\<close> for a mapping \<open>o\<close>: \<^verbatim>\<open>undefined\<close> when the key is absent.\<close>

definition get_prop :: "heap \<Rightarrow> jsval \<Rightarrow> string \<Rightarrow> jsval" where
  "get_prop h v key = (case map_of (own_props h v) key of Some x \<Rightarrow> x | None \<Rightarrow> Undefined)"

text \<open>
  Assignment to a property keeps the position of a key that is present and appends a new
  key.
\<close>

fun put :: "string \<Rightarrow> jsval \<Rightarrow> (string \<times> jsval) list \<Rightarrow> (string \<times> jsval) list" where
  "put key x [] = [(key, x)]"
| "put key x ((k, y) # props) = (if k = key then (key, x) # props else (k, y) # put key x props)"

text \<open>\<^verbatim>\<open>o[key] = x\<close> for a mapping \<open>o\<close>: the one write the helpers perform.\<close>

fun set_prop :: "heap \<Rightarrow> jsval \<Rightarrow> string \<Rightarrow> jsval \<Rightarrow> heap" where
  "set_prop h (Ref a) key x =
     (case cell h a of Some (Obj props) \<Rightarrow> h[a := Obj (put key x props)] | _ \<Rightarrow> h)"
| "set_prop h v key x = h"

section \<open>Object transform\<close>

subsection \<open>getNewObject\<close>

text \<open>\<^verbatim>\<open>return object || ({} as T);\<close>\<close>

definition getNewObject :: "heap \<Rightarrow> jsval \<Rightarrow> jsval \<times> heap" where
  "getNewObject h object = (if truthy object then (object, h) else alloc h (Obj []))"

subsection \<open>cloneObject\<close>

text \<open>
  The recursion follows references through the heap and has no cycle guard, so it carries a
  budget \<open>n\<close> for the nesting depth it may still descend. \<open>clone_items\<close> is the callback
  of \<^verbatim>\<open>object.map\<close> run over the elements, \<open>clone_keys\<close> the callback of
  \<^verbatim>\<open>Object.keys(object).reduce\<close> run over the keys with the accumulator \<open>result\<close>.
\<close>

fun cloneObject :: "nat \<Rightarrow> heap \<Rightarrow> jsval \<Rightarrow> bool \<Rightarrow> (jsval \<times> heap) outcome"
  and clone_items :: "nat \<Rightarrow> heap \<Rightarrow> jsval list \<Rightarrow> bool \<Rightarrow> (jsval list \<times> heap) outcome"
  and clone_keys :: "nat \<Rightarrow> heap \<Rightarrow> jsval \<Rightarrow> jsval \<Rightarrow> string list \<Rightarrow> bool \<Rightarrow> heap outcome"
where
  "cloneObject n h object deep =
     (if dangling h object then Unmodelled
      else if \<not> isObject h object then Returns (object, h)
      else if isArray h object then
        (case n of
           0 \<Rightarrow> OutOfFuel
         | Suc m \<Rightarrow>
             (case clone_items m h (elements h object) deep of
                Returns (items, h') \<Rightarrow> Returns (alloc h' (Arr items))
              | OutOfFuel \<Rightarrow> OutOfFuel
              | Unmodelled \<Rightarrow> Unmodelled))
      else if deep then
        (case n of
           0 \<Rightarrow> OutOfFuel
         | Suc m \<Rightarrow>
             (case alloc h (Obj []) of
                (result, h0) \<Rightarrow>
                  (case clone_keys m h0 object result (Object_keys h0 object) deep of
                     Returns h' \<Rightarrow> Returns (result, h')
                   | OutOfFuel \<Rightarrow> OutOfFuel
                   | Unmodelled \<Rightarrow> Unmodelled)))
      else Returns (alloc h (Obj (own_props h object))))"
| "clone_items m h [] deep = Returns ([], h)"
| "clone_items m h (item # items) deep =
     (case cloneObject m h item deep of
        Returns (item', h1) \<Rightarrow>
          (case clone_items m h1 items deep of
             Returns (items', h2) \<Rightarrow> Returns (item' # items', h2)
           | OutOfFuel \<Rightarrow> OutOfFuel
           | Unmodelled \<Rightarrow> Unmodelled)
      | OutOfFuel \<Rightarrow> OutOfFuel
      | Unmodelled \<Rightarrow> Unmodelled)"
| "clone_keys m h object result [] deep = Returns h"
| "clone_keys m h object result (key # keys) deep =
     (case cloneObject m h (get_prop h object key) deep of
        Returns (x, h1) \<Rightarrow> clone_keys m (set_prop h1 result key x) object result keys deep
      | OutOfFuel \<Rightarrow> OutOfFuel
      | Unmodelled \<Rightarrow> Unmodelled)"

subsection \<open>deepMergeObject\<close>

text \<open>
  \<open>merge_keys\<close> is the callback of \<^verbatim>\<open>Object.keys(source).reduce\<close> run over the keys;
  its accumulator \<open>result\<close> is \<open>target\<close> throughout. Both arguments are mappings when the
  last branch is modelled: merging an array with a mapping would put named properties on an
  array or index keys on a mapping, which the value model does not represent.
\<close>

fun deepMergeObject :: "nat \<Rightarrow> heap \<Rightarrow> jsval \<Rightarrow> jsval \<Rightarrow> (jsval \<times> heap) outcome"
  and merge_keys :: "nat \<Rightarrow> heap \<Rightarrow> jsval \<Rightarrow> jsval \<Rightarrow> string list \<Rightarrow> heap outcome"
where
  "deepMergeObject n h target source =
     (if target = Undefined \<or> source = Undefined then
        Returns (if truthy target then target else source, h)
      else if dangling h target \<or> dangling h source then Unmodelled
      else if \<not> isObject h target \<or> \<not> isObject h source then Returns (source, h)
      else if isArray h target \<and> isArray h source then
        Returns (alloc h (Arr (elements h target @ elements h source)))
      else if isArray h target \<or> isArray h source then Unmodelled
      else
        (case n of
           0 \<Rightarrow> OutOfFuel
         | Suc m \<Rightarrow>
             (case merge_keys m h target source (Object_keys h source) of
                Returns h' \<Rightarrow> Returns (target, h')
              | OutOfFuel \<Rightarrow> OutOfFuel
              | Unmodelled \<Rightarrow> Unmodelled)))"
| "merge_keys m h target source [] = Returns h"
| "merge_keys m h target source (key # keys) =
     (case deepMergeObject m h (get_prop h target key) (get_prop h source key) of
        Returns (x, h1) \<Rightarrow> merge_keys m (set_prop h1 target key x) target source keys
      | OutOfFuel \<Rightarrow> OutOfFuel
      | Unmodelled \<Rightarrow> Unmodelled)"

section \<open>Randomized identifier generation\<close>

subsection \<open>Number operations\<close>

text \<open>
  The largest double is \<open>2 ^ 1024 - 2 ^ 971\<close>. A result that lies half a unit in the last
  place beyond it, or further, is rounded to an infinity.
\<close>

definition overflow_bound :: rat where
  "overflow_bound = 2 ^ 1024 - 2 ^ 970"

definition overflow :: "rat \<Rightarrow> jsnum" where
  "overflow x =
     (if overflow_bound \<le> x then PosInf else if x \<le> - overflow_bound then NegInf else Fin x)"

text \<open>
  The operators \<open>random\<close> applies to its bounds. \<^verbatim>\<open>x % 1\<close> is the remainder of the
  division truncated towards zero, so it has the sign of \<open>x\<close>; of an infinity it is
  \<open>NaN\<close>.
\<close>

fun js_add :: "jsnum \<Rightarrow> jsnum \<Rightarrow> jsnum" where
  "js_add (Fin x) (Fin y) = overflow (x + y)"
| "js_add NaN y = NaN"
| "js_add x NaN = NaN"
| "js_add PosInf NegInf = NaN"
| "js_add NegInf PosInf = NaN"
| "js_add PosInf y = PosInf"
| "js_add x PosInf = PosInf"
| "js_add NegInf y = NegInf"
| "js_add x NegInf = NegInf"

fun js_sub :: "jsnum \<Rightarrow> jsnum \<Rightarrow> jsnum" where
  "js_sub (Fin x) (Fin y) = overflow (x - y)"
| "js_sub NaN y = NaN"
| "js_sub x NaN = NaN"
| "js_sub PosInf PosInf = NaN"
| "js_sub NegInf NegInf = NaN"
| "js_sub PosInf y = PosInf"
| "js_sub NegInf y = NegInf"
| "js_sub x PosInf = NegInf"
| "js_sub x NegInf = PosInf"

fun js_mul :: "jsnum \<Rightarrow> jsnum \<Rightarrow> jsnum" where
  "js_mul (Fin x) (Fin y) = overflow (x * y)"
| "js_mul NaN y = NaN"
| "js_mul x NaN = NaN"
| "js_mul (Fin x) PosInf = (if x = 0 then NaN else if 0 < x then PosInf else NegInf)"
| "js_mul (Fin x) NegInf = (if x = 0 then NaN else if 0 < x then NegInf else PosInf)"
| "js_mul PosInf (Fin y) = (if y = 0 then NaN else if 0 < y then PosInf else NegInf)"
| "js_mul NegInf (Fin y) = (if y = 0 then NaN else if 0 < y then NegInf else PosInf)"
| "js_mul PosInf PosInf = PosInf"
| "js_mul PosInf NegInf = NegInf"
| "js_mul NegInf PosInf = NegInf"
| "js_mul NegInf NegInf = PosInf"

fun js_gt :: "jsnum \<Rightarrow> jsnum \<Rightarrow> bool" where
  "js_gt (Fin x) (Fin y) = (x > y)"
| "js_gt NaN y = False"
| "js_gt x NaN = False"
| "js_gt x PosInf = False"
| "js_gt NegInf y = False"
| "js_gt PosInf y = True"
| "js_gt x NegInf = True"

fun js_mod1 :: "jsnum \<Rightarrow> jsnum" where
  "js_mod1 (Fin x) = Fin (x - of_int (if 0 \<le> x then \<lfloor>x\<rfloor> else \<lceil>x\<rceil>))"
| "js_mod1 x = NaN"

fun Math_floor :: "jsnum \<Rightarrow> jsnum" where
  "Math_floor (Fin x) = Fin (of_int \<lfloor>x\<rfloor>)"
| "Math_floor x = x"

fun Math_min :: "jsnum \<Rightarrow> jsnum \<Rightarrow> jsnum" where
  "Math_min (Fin x) (Fin y) = Fin (min x y)"
| "Math_min NaN y = NaN"
| "Math_min x NaN = NaN"
| "Math_min NegInf y = NegInf"
| "Math_min x NegInf = NegInf"
| "Math_min PosInf y = y"
| "Math_min x PosInf = x"

text \<open>
  The coercion to a number that the arithmetic operators apply to a bound. A string or an
  object as a bound (where the signature says \<^verbatim>\<open>number\<close>) is not modelled: \<^verbatim>\<open>+\<close> and
  \<^verbatim>\<open>>\<close> would then work on strings.
\<close>

fun to_number :: "jsval \<Rightarrow> jsnum option" where
  "to_number Undefined = Some NaN"
| "to_number Null = Some (Fin 0)"
| "to_number (JBool b) = Some (Fin (if b then 1 else 0))"
| "to_number (JNum x) = Some x"
| "to_number (JStr s) = None"
| "to_number (Ref a) = None"

subsection \<open>random\<close>

text \<open>
  One outcome of \<^verbatim>\<open>Math.random()\<close>: the number drawn, and the length of the string
  \<^verbatim>\<open>rand + ''\<close> that JavaScript prints for it (the shortest decimal that reads back as the
  same double, which the idealised number does not determine).
\<close>

record draw =
  rand :: rat
  rand_str_len :: nat

text \<open>
  Lines 39 to 57 of \<open>random\<close>: the three parameters after the argument shuffling. Each
  \<open>let\<close> is one of the three \<^verbatim>\<open>if\<close> statements, in order.
\<close>

definition random_args :: "jsval \<Rightarrow> jsval \<Rightarrow> jsval \<Rightarrow> jsval \<times> jsval \<times> jsval" where
  "random_args lower upper floating =
     (let (upper, floating) =
            (if truthy floating \<and> \<not> is_boolean floating then (Undefined, Undefined)
             else (upper, floating));
          (lower, upper, floating) =
            (if floating = Undefined then
               (if is_boolean upper then (lower, Undefined, upper)
                else if is_boolean lower then (Undefined, upper, lower)
                else (lower, upper, floating))
             else (lower, upper, floating));
          (lower, upper) =
            (if lower = Undefined \<and> upper = Undefined then (JNum (Fin 0), JNum (Fin 1))
             else if upper = Undefined then (JNum (Fin 0), lower)
             else (lower, upper))
      in (lower, upper, floating))"

text \<open>
  Lines 58 to 70: the swap, then the floating-point branch or the integer branch. Either
  branch calls \<^verbatim>\<open>Math.random()\<close> once; \<open>d\<close> is its outcome.
  \<^verbatim>\<open>parseFloat('1e-' + k)\<close> is \<open>1 / 10 ^ k\<close>.
\<close>

definition random_range :: "jsnum \<Rightarrow> jsnum \<Rightarrow> bool \<Rightarrow> draw \<Rightarrow> jsnum" where
  "random_range lower upper floating d =
     (let (lower, upper) = (if js_gt lower upper then (upper, lower) else (lower, upper))
      in if floating \<or> num_truthy (js_mod1 lower) \<or> num_truthy (js_mod1 upper) then
           Math_min
             (js_add lower
                (js_mul (Fin (rand d))
                   (js_add (js_sub upper lower) (Fin (1 / 10 ^ (rand_str_len d - 1))))))
             upper
         else
           js_add lower
             (Math_floor (js_mul (Fin (rand d)) (js_add (js_sub upper lower) (Fin 1)))))"

definition random :: "jsval \<Rightarrow> jsval \<Rightarrow> jsval \<Rightarrow> draw \<Rightarrow> jsnum outcome" where
  "random lower upper floating d =
     (case random_args lower upper floating of
        (lower, upper, floating) \<Rightarrow>
          (case (to_number lower, to_number upper) of
             (Some lo, Some hi) \<Rightarrow> Returns (random_range lo hi (truthy floating) d)
           | _ \<Rightarrow> Unmodelled))"

subsection \<open>The general-purpose generator as a stream of draws\<close>

type_synonym rng = "nat \<Rightarrow> draw"

text \<open>\<^verbatim>\<open>Math.random()\<close>: the next draw, and the generator after it.\<close>

definition Math_random :: "rng \<Rightarrow> draw \<times> rng" where
  "Math_random g = (g 0, \<lambda>i. g (Suc i))"

subsection \<open>getRandomItem, randomString, getVisitId\<close>

text \<open>
  \<^verbatim>\<open>indexable[random(indexable.length - 1)]\<close> for a string: the character at the index,
  or \<^verbatim>\<open>undefined\<close> (here \<open>None\<close>) when the index is not one of the string's.
\<close>

fun char_at :: "string \<Rightarrow> jsnum \<Rightarrow> char option" where
  "char_at s (Fin x) =
     (if x = of_int \<lfloor>x\<rfloor> \<and> 0 \<le> x \<and> nat \<lfloor>x\<rfloor> < length s then Some (s ! nat \<lfloor>x\<rfloor>) else None)"
| "char_at s x = None"

definition getRandomItem :: "string \<Rightarrow> draw \<Rightarrow> char option outcome" where
  "getRandomItem indexable d =
     (case random (JNum (Fin (of_nat (length indexable) - 1))) Undefined Undefined d of
        Returns i \<Rightarrow> Returns (char_at indexable i)
      | OutOfFuel \<Rightarrow> OutOfFuel
      | Unmodelled \<Rightarrow> Unmodelled)"

definition chars :: string where
  "chars = ''1234567890abcdefghijklmnopqrstuvwxyzABCDEFGHIJKLMNOPQRSTUVWXYZ''"

text \<open>\<^verbatim>\<open>toLowerCase\<close> on the ASCII letters.\<close>

definition toLowerCase :: "string \<Rightarrow> string" where
  "toLowerCase s =
     map (\<lambda>c. if 65 \<le> (of_char c :: nat) \<and> (of_char c :: nat) \<le> 90
               then char_of (of_char c + 32 :: nat) else c) s"

text \<open>
  The loop \<^verbatim>\<open>for (let i = 0; i < length; i++) result += getRandomItem(chars)\<close>, from
  the counter \<open>i\<close> on. Appending \<^verbatim>\<open>undefined\<close> to a string appends its name.
\<close>

function randomString_loop :: "int \<Rightarrow> int \<Rightarrow> string \<Rightarrow> rng \<Rightarrow> string outcome \<times> rng" where
  "randomString_loop i len result g =
     (if i < len then
        (case Math_random g of
           (d, g') \<Rightarrow>
             (case getRandomItem chars d of
                Returns item \<Rightarrow>
                  randomString_loop (i + 1) len
                    (result @ (case item of Some c \<Rightarrow> [c] | None \<Rightarrow> ''undefined'')) g'
              | OutOfFuel \<Rightarrow> (OutOfFuel, g')
              | Unmodelled \<Rightarrow> (Unmodelled, g')))
      else (Returns result, g))"
  by pat_completeness auto
termination
  by (relation "measure (\<lambda>(i, len, result, g). nat (len - i))") auto

definition randomString :: "int \<Rightarrow> bool \<Rightarrow> rng \<Rightarrow> string outcome \<times> rng" where
  "randomString len lower g =
     (case randomString_loop 0 len [] g of
        (Returns result, g') \<Rightarrow> (Returns (if lower then toLowerCase result else result), g')
      | (OutOfFuel, g') \<Rightarrow> (OutOfFuel, g')
      | (Unmodelled, g') \<Rightarrow> (Unmodelled, g'))"

text \<open>The decimal digits of a natural number.\<close>

fun digits10 :: "nat \<Rightarrow> string" where
  "digits10 n =
     (if n < 10 then [''0123456789'' ! n]
      else digits10 (n div 10) @ [''0123456789'' ! (n mod 10)])"

text \<open>
  A number inside a template literal. Integers below \<open>10 ^ 21\<close> print their digits; the
  printing of other finite numbers (a shortest decimal, or an exponent) is not modelled.
\<close>

fun num_to_string :: "jsnum \<Rightarrow> string option" where
  "num_to_string NaN = Some ''NaN''"
| "num_to_string PosInf = Some ''Infinity''"
| "num_to_string NegInf = Some ''-Infinity''"
| "num_to_string (Fin x) =
     (if x = of_int \<lfloor>x\<rfloor> \<and> \<bar>x\<bar> < 10 ^ 21 then
        Some ((if x < 0 then ''-'' else []) @ digits10 (nat \<bar>\<lfloor>x\<rfloor>\<bar>))
      else None)"

definition getVisitId :: "rng \<Rightarrow> string outcome \<times> rng" where
  "getVisitId g =
     (case Math_random g of
        (d, g1) \<Rightarrow>
          (case random (JNum (Fin 1)) (JNum (Fin 9)) Undefined d of
             Returns randomNum \<Rightarrow>
               (case randomString 10 True g1 of
                  (Returns randomStr, g2) \<Rightarrow>
                    (case num_to_string randomNum of
                       Some s \<Rightarrow> (Returns (s @ randomStr @ ''0''), g2)
                     | None \<Rightarrow> (Unmodelled, g2))
                | (OutOfFuel, g2) \<Rightarrow> (OutOfFuel, g2)
                | (Unmodelled, g2) \<Rightarrow> (Unmodelled, g2))
           | OutOfFuel \<Rightarrow> (OutOfFuel, g1)
           | Unmodelled \<Rightarrow> (Unmodelled, g1)))"

subsection \<open>createUUID\<close>

type_synonym byte = "8 word"

text \<open>The strong byte source, as the stream of the bytes it will hand out.\<close>

type_synonym byte_source = "nat \<Rightarrow> byte"

text \<open>\<^verbatim>\<open>crypto.randomBytes(1)[0]\<close>\<close>

definition randomBytes1 :: "byte_source \<Rightarrow> byte \<times> byte_source" where
  "randomBytes1 src = (src 0, \<lambda>i. src (Suc i))"

text \<open>\<^verbatim>\<open>n.toString(16)\<close> for a natural number.\<close>

fun toString16 :: "nat \<Rightarrow> string" where
  "toString16 n =
     (if n < 16 then [''0123456789abcdef'' ! n]
      else toString16 (n div 16) @ [''0123456789abcdef'' ! (n mod 16)])"

text \<open>The replacement callback, given the matched character and the byte drawn.\<close>

definition uuid_digit :: "char \<Rightarrow> byte \<Rightarrow> string" where
  "uuid_digit t b =
     (let e = unat b mod 16
      in toString16 (if t = CHR ''x'' then e else (3 AND e) OR 8))"

text \<open>
  \<^verbatim>\<open>template.replace(/[xy]/g, callback)\<close>: every \<open>x\<close> and \<open>y\<close>, from left to right, is
  replaced by what the callback returns; the other characters are copied.
\<close>

fun replace_xy :: "string \<Rightarrow> byte_source \<Rightarrow> string \<times> byte_source" where
  "replace_xy [] src = ([], src)"
| "replace_xy (t # ts) src =
     (if t = CHR ''x'' \<or> t = CHR ''y'' then
        (case randomBytes1 src of
           (b, src1) \<Rightarrow>
             (case replace_xy ts src1 of (out, src2) \<Rightarrow> (uuid_digit t b @ out, src2)))
      else (case replace_xy ts src of (out, src2) \<Rightarrow> (t # out, src2)))"

definition createUUID :: "byte_source \<Rightarrow> string \<times> byte_source" where
  "createUUID src = replace_xy ''xxxxxxxx-xxxx-4xxx-yxxx-xxxxxxxxxxxx'' src"

section \<open>Notions the properties are stated with\<close>

text \<open>
  The pattern of the specification,
  \<^verbatim>\<open>^[0-9a-f]{8}-[0-9a-f]{4}-4[0-9a-f]{3}-[89ab][0-9a-f]{3}-[0-9a-f]{12}$\<close>, as the list of
  its character classes; a string matches when it has one character of each class, in
  order, and nothing else.
\<close>

definition hex :: string where
  "hex = ''0123456789abcdef''"

definition uuid_pattern :: "string list" where
  "uuid_pattern =
     replicate 8 hex @ [''-''] @ replicate 4 hex @ [''-'', ''4''] @ replicate 3 hex @
     [''-'', ''89ab''] @ replicate 3 hex @ [''-''] @ replicate 12 hex"

definition matches :: "string \<Rightarrow> string list \<Rightarrow> bool" where
  "matches s pattern = list_all2 (\<lambda>c cls. c \<in> set cls) s pattern"

text \<open>The characters the replacement can put where the template has \<open>t\<close>.\<close>

fun class_of :: "char \<Rightarrow> string" where
  "class_of t = (if t = CHR ''x'' then hex else if t = CHR ''y'' then ''89ab'' else [t])"

text \<open>Every outcome of \<^verbatim>\<open>Math.random()\<close> lies in the interval from 0 (included) to 1.\<close>

definition unit_draws :: "rng \<Rightarrow> bool" where
  "unit_draws g = (\<forall>i. 0 \<le> rand (g i) \<and> rand (g i) < 1)"

text \<open>An integer in the range of doubles: it is not rounded to an infinity.\<close>

definition in_double_range :: "int \<Rightarrow> bool" where
  "in_double_range k = (\<bar>of_int k\<bar> < overflow_bound)"

definition lower_alnum :: string where
  "lower_alnum = ''0123456789abcdefghijklmnopqrstuvwxyz''"

text \<open>
  The nesting that \<open>cloneObject\<close> follows from a value is at most \<open>n\<close> deep: it descends
  into the elements of an array, and into the properties of a mapping when \<open>deep\<close> is set.
  A structure that contains itself along these paths has no such \<open>n\<close>.
\<close>

fun clone_depth_le :: "nat \<Rightarrow> heap \<Rightarrow> bool \<Rightarrow> jsval \<Rightarrow> bool" where
  "clone_depth_le n h deep (Ref a) =
     (case cell h a of
        None \<Rightarrow> False
      | Some (Arr items) \<Rightarrow>
          (case n of 0 \<Rightarrow> False | Suc m \<Rightarrow> list_all (clone_depth_le m h deep) items)
      | Some (Obj props) \<Rightarrow>
          (if deep then
             (case n of
                0 \<Rightarrow> False
              | Suc m \<Rightarrow> list_all (\<lambda>p. clone_depth_le m h deep (snd p)) props)
           else True))"
| "clone_depth_le n h deep v = True"

text \<open>
  The mappings that \<open>deepMergeObject\<close> can reach from a value by following mapping
  properties for at most \<open>n\<close> levels, one entry for every path. The merge descends on the
  target side along these paths and writes nowhere else. When the list is \<open>distinct\<close>, no
  mapping is shared between two properties and none contains itself.
\<close>

fun skeleton :: "nat \<Rightarrow> heap \<Rightarrow> jsval \<Rightarrow> addr list" where
  "skeleton n h (Ref a) =
     (case n of
        0 \<Rightarrow> []
      | Suc m \<Rightarrow>
          (case cell h a of
             Some (Obj props) \<Rightarrow> a # concat (map (\<lambda>p. skeleton m h (snd p)) props)
           | _ \<Rightarrow> []))"
| "skeleton n h v = []"




definition is_mapping :: "heap \<Rightarrow> jsval \<Rightarrow> bool" where
  "is_mapping h v = (isObject h v \<and> \<not> isArray h v)"

text \<open>
  The frame of a merge: \<open>h'\<close> has the objects of \<open>h\<close>, unchanged outside the addresses
  \<open>F\<close>, and the same addresses hold mappings.
\<close>

definition mapping_at :: "heap \<Rightarrow> addr \<Rightarrow> bool" where
  "mapping_at h a = (\<exists>props. cell h a = Some (Obj props))"

definition mframe :: "addr set \<Rightarrow> heap \<Rightarrow> heap \<Rightarrow> bool" where
  "mframe F h h' =
     (length h \<le> length h' \<and>
      (\<forall>a. a \<notin> F \<longrightarrow> cell h a \<noteq> None \<longrightarrow> cell h' a = cell h a) \<and>
      (\<forall>a. mapping_at h' a = mapping_at h a))"



text \<open>
  Inputs for examples: the draw \<^verbatim>\<open>0.5\<close>; a generator that cycles through the eighths
  \<^verbatim>\<open>0, 0.125, ..., 0.875\<close>; and a heap with the mapping \<^verbatim>\<open>{k: [{x: null}, 1]}\<close>.
\<close>

definition draw_half :: draw where
  "draw_half = \<lparr>rand = 1 / 2, rand_str_len = 3\<rparr>"

definition cycling_draws :: rng where
  "cycling_draws i =
     \<lparr>rand = of_nat (i mod 8) / 8,
      rand_str_len =
        (if i mod 8 = 0 then 1 else if i mod 8 = 4 then 3 else if i mod 2 = 0 then 4 else 5)\<rparr>"

definition clone_example :: heap where
  "clone_example = [Obj [(''k'', Ref 1)], Arr [Ref 2, JNum (Fin 1)], Obj [(''x'', Null)]]"

declare cloneObject.simps [simp del]
declare deepMergeObject.simps [simp del]
declare digits10.simps [simp del]
declare toString16.simps [simp del]

section \<open>Properties\<close>

subsection \<open>getNewObject\<close>

text \<open>
  C10. \<open>getNewObject\<close> returns a fresh empty mapping for every falsy input, that is for
  \<^verbatim>\<open>undefined\<close>, \<^verbatim>\<open>null\<close>, \<^verbatim>\<open>0\<close>, the empty string, \<^verbatim>\<open>false\<close> and
  \<^verbatim>\<open>NaN\<close>, not only for the absent value; every other input is truthy and is returned
  itself, with nothing allocated.
\<close>

theorem getNewObject_falsy_or_same:
  "(u \<in> {Undefined, Null, JNum (Fin 0), JStr [], JBool False, JNum NaN} \<longrightarrow>
      getNewObject h u = (Ref (length h), h @ [Obj []])) \<and>
   (v \<notin> {Undefined, Null, JNum (Fin 0), JStr [], JBool False, JNum NaN} \<longrightarrow>
      truthy v \<and> getNewObject h v = (v, h))"
proof (intro conjI impI)
  assume "u \<in> {Undefined, Null, JNum (Fin 0), JStr [], JBool False, JNum NaN}"
  then have "\<not> truthy u" by auto
  then show "getNewObject h u = (Ref (length h), h @ [Obj []])"
    by (simp add: getNewObject_def alloc_def)
next
  assume v: "v \<notin> {Undefined, Null, JNum (Fin 0), JStr [], JBool False, JNum NaN}"
  show "truthy v"
  proof (cases v)
    case (JNum x)
    with v show ?thesis by (cases x) auto
  qed (use v in auto)
  then show "getNewObject h v = (v, h)"
    by (simp add: getNewObject_def)
qed

theorem getNewObject_falsy_or_same_witness:
  "getNewObject [Arr []] (JNum (Fin 0)) = (Ref 1, [Arr [], Obj []]) \<and>
   truthy (JStr ''a'') \<and> getNewObject [Arr []] (JStr ''a'') = (JStr ''a'', [Arr []])"
  using getNewObject_falsy_or_same [of "JNum (Fin 0)" "[Arr []]" "JStr ''a''"]
  by simp


subsection \<open>cloneObject\<close>

lemma cell_prefix: "prefix h h' \<Longrightarrow> cell h a = Some ob \<Longrightarrow> cell h' a = Some ob"
  by (auto simp: prefix_def cell_def nth_append split: if_splits)

lemma cell_Some_iff: "cell h a = Some ob \<longleftrightarrow> a < length h \<and> h ! a = ob"
  by (auto simp: cell_def)

lemma cell_None_iff: "cell h a = None \<longleftrightarrow> length h \<le> a"
  by (auto simp: cell_def)

lemma prefix_update_beyond: "prefix hb h \<Longrightarrow> length hb \<le> r \<Longrightarrow> prefix hb (h[r := ob])"
  by (auto simp: prefix_def list_update_append)

lemma cloneObject_scalar:
  "\<not> isObject h v \<Longrightarrow> \<not> dangling h v \<Longrightarrow> cloneObject n h v deep = Returns (v, h)"
  by (simp add: cloneObject.simps)

lemma cloneObject_dangling: "cell h a = None \<Longrightarrow> cloneObject n h (Ref a) deep = Unmodelled"
  by (simp add: cloneObject.simps)

lemma cloneObject_array_0:
  "cell h a = Some (Arr items) \<Longrightarrow> cloneObject 0 h (Ref a) deep = OutOfFuel"
  by (simp add: cloneObject.simps)

lemma cloneObject_array:
  "cell h a = Some (Arr items) \<Longrightarrow>
   cloneObject (Suc m) h (Ref a) deep =
     (case clone_items m h items deep of
        Returns (items', h') \<Rightarrow> Returns (Ref (length h'), h' @ [Arr items'])
      | OutOfFuel \<Rightarrow> OutOfFuel
      | Unmodelled \<Rightarrow> Unmodelled)"
  by (simp add: cloneObject.simps alloc_def split: outcome.splits)

lemma cloneObject_deep_0:
  "cell h a = Some (Obj props) \<Longrightarrow> cloneObject 0 h (Ref a) True = OutOfFuel"
  by (simp add: cloneObject.simps)

lemma cloneObject_deep:
  "cell h a = Some (Obj props) \<Longrightarrow>
   cloneObject (Suc m) h (Ref a) True =
     (case clone_keys m (h @ [Obj []]) (Ref a) (Ref (length h)) (map fst props) True of
        Returns h' \<Rightarrow> Returns (Ref (length h), h')
      | OutOfFuel \<Rightarrow> OutOfFuel
      | Unmodelled \<Rightarrow> Unmodelled)"
  by (auto simp: cloneObject.simps alloc_def Object_keys_def cell_def nth_append
      split: if_splits)

lemma cloneObject_shallow:
  "cell h a = Some (Obj props) \<Longrightarrow>
   cloneObject n h (Ref a) False = Returns (Ref (length h), h @ [Obj props])"
  by (simp add: cloneObject.simps alloc_def)

lemma clone_depth_le_prefix:
  "prefix h h' \<Longrightarrow> clone_depth_le n h deep v \<Longrightarrow> clone_depth_le n h' deep v"
proof (induction n h deep v rule: clone_depth_le.induct)
  case (1 n h deep a)
  from "1.prems"(2) obtain ob where ob: "cell h a = Some ob" by (auto split: option.splits)
  with "1.prems"(1) have ob': "cell h' a = Some ob" by (rule cell_prefix)
  show ?case
  proof (cases ob)
    case (Arr items)
    with "1.prems" ob obtain m where n: "n = Suc m" and all: "list_all (clone_depth_le m h deep) items"
      by (auto split: nat.splits)
    have "list_all (clone_depth_le m h' deep) items"
      unfolding list_all_iff
    proof
      fix x assume x: "x \<in> set items"
      with all have "clone_depth_le m h deep x" by (simp add: list_all_iff)
      with "1.IH"(1) [OF ob Arr n x "1.prems"(1)] show "clone_depth_le m h' deep x" by simp
    qed
    with ob' Arr n show ?thesis by simp
  next
    case (Obj props)
    show ?thesis
    proof (cases deep)
      case False
      with ob' Obj show ?thesis by simp
    next
      case True
      with "1.prems" ob Obj obtain m where n: "n = Suc m"
        and all: "list_all (\<lambda>p. clone_depth_le m h deep (snd p)) props"
        by (auto split: nat.splits)
      have "list_all (\<lambda>p. clone_depth_le m h' deep (snd p)) props"
        unfolding list_all_iff
      proof
        fix p assume p: "p \<in> set props"
        with all have "clone_depth_le m h deep (snd p)" by (simp add: list_all_iff)
        with "1.IH"(2) [OF ob Obj True n p "1.prems"(1)] show "clone_depth_le m h' deep (snd p)"
          by simp
      qed
      with ob' Obj n True show ?thesis by simp
    qed
  qed
qed simp_all


lemma clone_items_returns:
  assumes IH: "\<And>h v. clone_depth_le m h deep v \<Longrightarrow>
                 \<exists>r h'. cloneObject m h v deep = Returns (r, h') \<and> prefix h h'"
  shows "list_all (clone_depth_le m h deep) items \<Longrightarrow>
         \<exists>items' h'. clone_items m h items deep = Returns (items', h') \<and> prefix h h' \<and>
           length items' = length items"
proof (induction items arbitrary: h)
  case Nil
  show ?case by simp
next
  case (Cons item items)
  from Cons.prems have "clone_depth_le m h deep item" by simp
  from IH [OF this] obtain r h1
    where r: "cloneObject m h item deep = Returns (r, h1)" and p1: "prefix h h1" by blast
  from Cons.prems p1 have "list_all (clone_depth_le m h1 deep) items"
    by (auto simp: list_all_iff intro: clone_depth_le_prefix)
  from Cons.IH [OF this] obtain items' h2
    where rest: "clone_items m h1 items deep = Returns (items', h2)" and p2: "prefix h1 h2"
      and len: "length items' = length items" by blast
  from r rest have "clone_items m h (item # items) deep = Returns (r # items', h2)" by simp
  moreover from p1 p2 have "prefix h h2" by (rule prefix_order.trans)
  ultimately show ?case using len by simp
qed

lemma get_prop_cell:
  "cell h a = Some (Obj props) \<Longrightarrow>
   get_prop h (Ref a) key = (case map_of props key of Some x \<Rightarrow> x | None \<Rightarrow> Undefined)"
  by (simp add: get_prop_def)


lemma clone_keys_returns:
  assumes IH: "\<And>h v. clone_depth_le m h deep v \<Longrightarrow>
                 \<exists>r h'. cloneObject m h v deep = Returns (r, h') \<and> prefix h h'"
    and ob: "cell hb oa = Some (Obj props)"
    and all: "list_all (\<lambda>p. clone_depth_le m hb deep (snd p)) props"
    and r: "length hb \<le> r"
  shows "prefix hb h \<Longrightarrow> set keys \<subseteq> fst ` set props \<Longrightarrow> cell h r = Some (Obj ps) \<Longrightarrow>
         \<exists>h' ps'. clone_keys m h (Ref oa) (Ref r) keys deep = Returns h' \<and> prefix hb h' \<and>
           cell h' r = Some (Obj ps')"
proof (induction keys arbitrary: h ps)
  case Nil
  then show ?case by simp
next
  case (Cons key keys)
  from Cons.prems(1) ob have obh: "cell h oa = Some (Obj props)" by (rule cell_prefix)
  from Cons.prems(2) have "key \<in> fst ` set props" by simp
  then have "map_of props key \<noteq> None" by (simp add: map_of_eq_None_iff)
  then obtain x where x: "map_of props key = Some x" by blast
  then have "(key, x) \<in> set props" by (rule map_of_SomeD)
  with all have "clone_depth_le m hb deep x" by (auto simp: list_all_iff)
  with Cons.prems(1) have "clone_depth_le m h deep x" by (rule clone_depth_le_prefix)
  from IH [OF this] obtain y h1
    where y: "cloneObject m h x deep = Returns (y, h1)" and p1: "prefix h h1" by blast
  from p1 Cons.prems(3) have res: "cell h1 r = Some (Obj ps)" by (rule cell_prefix)
  let ?h2 = "h1[r := Obj (put key y ps)]"
  from Cons.prems(1) p1 have "prefix hb h1" by (rule prefix_order.trans)
  with r have p2: "prefix hb ?h2" by (intro prefix_update_beyond)
  from res have res2: "cell ?h2 r = Some (Obj (put key y ps))" by (simp add: cell_Some_iff)
  from Cons.prems(2) have "set keys \<subseteq> fst ` set props" by simp
  from Cons.IH [OF p2 this res2] obtain h' ps'
    where "clone_keys m ?h2 (Ref oa) (Ref r) keys deep = Returns h'" "prefix hb h'"
      "cell h' r = Some (Obj ps')" by blast
  moreover have "get_prop h (Ref oa) key = x" using obh x by (simp add: get_prop_cell)
  ultimately show ?case using y res by auto
qed

lemma cloneObject_returns:
  "clone_depth_le n h deep v \<Longrightarrow>
   \<exists>r h'. cloneObject n h v deep = Returns (r, h') \<and> prefix h h' \<and>
     (if isObject h v
      then \<exists>a. r = Ref a \<and> length h \<le> a \<and> isObject h' r \<and> isArray h' r = isArray h v
      else r = v \<and> h' = h)"
proof (induction n arbitrary: h v)
  case 0
  show ?case
  proof (cases v)
    case (Ref a)
    with 0 obtain props where ob: "cell h a = Some (Obj props)" and "\<not> deep"
      by (auto split: option.splits obj.splits if_splits)
    then show ?thesis using Ref
      by (simp add: cloneObject_shallow cell_def)
  qed (simp_all add: cloneObject_scalar)
next
  case (Suc m)
  have IH: "\<And>h v. clone_depth_le m h deep v \<Longrightarrow>
              \<exists>r h'. cloneObject m h v deep = Returns (r, h') \<and> prefix h h'"
    using Suc.IH by blast
  show ?case
  proof (cases v)
    case (Ref a)
    with Suc.prems obtain ob where ob: "cell h a = Some ob" by (auto split: option.splits)
    show ?thesis
    proof (cases ob)
      case (Arr items)
      with Suc.prems Ref ob have "list_all (clone_depth_le m h deep) items" by simp
      from clone_items_returns [OF IH this] obtain items' h1
        where "clone_items m h items deep = Returns (items', h1)" and p: "prefix h h1" by blast
      with ob Arr have "cloneObject (Suc m) h (Ref a) deep =
          Returns (Ref (length h1), h1 @ [Arr items'])"
        by (simp add: cloneObject_array)
      moreover from p have "prefix h (h1 @ [Arr items'])" by (rule prefix_prefix)
      moreover from p have "length h \<le> length h1" by (rule prefix_length_le)
      ultimately show ?thesis using Ref ob Arr by (simp add: cell_def)
    next
      case (Obj props)
      show ?thesis
      proof (cases deep)
        case False
        with ob Obj Ref show ?thesis by (simp add: cloneObject_shallow cell_def)
      next
        case True
        with Suc.prems Ref ob Obj
        have all: "list_all (\<lambda>p. clone_depth_le m h deep (snd p)) props" by simp
        have "prefix h (h @ [Obj []])" by simp
        moreover have "set (map fst props) \<subseteq> fst ` set props" by simp
        moreover have "cell (h @ [Obj []]) (length h) = Some (Obj [])" by (simp add: cell_def)
        ultimately obtain h' ps'
          where "clone_keys m (h @ [Obj []]) (Ref a) (Ref (length h)) (map fst props) deep =
                   Returns h'"
            and "prefix h h'" and "cell h' (length h) = Some (Obj ps')"
          using clone_keys_returns [OF IH ob [unfolded Obj] all order_refl] by blast
        with ob Obj Ref True show ?thesis by (simp add: cloneObject_deep)
      qed
    qed
  qed (simp_all add: cloneObject_scalar)
qed


text \<open>
  C6 says that no input is rejected. A structure that contains itself is: the recursion
  has no cycle guard, so the call never returns (in JavaScript the stack overflows). For
  every other input, and both values of \<open>deep\<close>: a value that is not a container is
  returned itself, with the heap untouched; for a container the call returns a container
  of the same kind at an address that the heap before the call does not hold, so never the
  input instance, and every object of the heap before the call is as it was.
\<close>

theorem cloneObject_scalar_or_fresh:
  assumes "clone_depth_le n h deep v"
  shows "(\<not> isObject h v \<longrightarrow> cloneObject n h v deep = Returns (v, h)) \<and>
         (isObject h v \<longrightarrow>
            (\<exists>a h'. cloneObject n h v deep = Returns (Ref a, h') \<and> cell h a = None \<and>
               Ref a \<noteq> v \<and> isObject h' (Ref a) \<and> isArray h' (Ref a) = isArray h v \<and>
               prefix h h'))"
proof (intro conjI impI)
  assume "\<not> isObject h v"
  with cloneObject_returns [OF assms] show "cloneObject n h v deep = Returns (v, h)" by auto
next
  assume ob: "isObject h v"
  with cloneObject_returns [OF assms] obtain a h'
    where r: "cloneObject n h v deep = Returns (Ref a, h')" "prefix h h'" "length h \<le> a"
      "isObject h' (Ref a)" "isArray h' (Ref a) = isArray h v"
    by auto
  from r(3) have "cell h a = None" by (simp add: cell_None_iff)
  moreover from this ob have "Ref a \<noteq> v" by auto
  ultimately show "\<exists>a h'. cloneObject n h v deep = Returns (Ref a, h') \<and> cell h a = None \<and>
      Ref a \<noteq> v \<and> isObject h' (Ref a) \<and> isArray h' (Ref a) = isArray h v \<and> prefix h h'"
    using r by blast
qed

theorem cloneObject_scalar_or_fresh_witness:
  "clone_depth_le 3 clone_example True (Ref 0) \<and> isObject clone_example (Ref 0) \<and>
   cloneObject 3 clone_example (Ref 0) True =
     Returns (Ref 3,
       clone_example @ [Obj [(''k'', Ref 5)], Obj [(''x'', Null)], Arr [Ref 4, JNum (Fin 1)]]) \<and>
   (\<exists>a h'. cloneObject 3 clone_example (Ref 0) True = Returns (Ref a, h') \<and>
      cell clone_example a = None \<and> Ref a \<noteq> Ref 0 \<and> isObject h' (Ref a) \<and>
      \<not> isArray h' (Ref a) \<and> prefix clone_example h') \<and>
   clone_depth_le 3 clone_example True Null \<and>
   cloneObject 3 clone_example Null True = Returns (Null, clone_example)"
proof -
  have d: "clone_depth_le 3 clone_example True (Ref 0)" "clone_depth_le 3 clone_example True Null"
    by code_simp+
  have o: "isObject clone_example (Ref 0)" "\<not> isArray clone_example (Ref 0)"
    "\<not> isObject clone_example Null"
    by code_simp+
  have run: "cloneObject 3 clone_example (Ref 0) True =
     Returns (Ref 3,
       clone_example @ [Obj [(''k'', Ref 5)], Obj [(''x'', Null)], Arr [Ref 4, JNum (Fin 1)]])"
    by code_simp
  from cloneObject_scalar_or_fresh [OF d(1)] o
  have "\<exists>a h'. cloneObject 3 clone_example (Ref 0) True = Returns (Ref a, h') \<and>
      cell clone_example a = None \<and> Ref a \<noteq> Ref 0 \<and> isObject h' (Ref a) \<and>
      \<not> isArray h' (Ref a) \<and> prefix clone_example h'"
    by simp
  moreover from cloneObject_scalar_or_fresh [OF d(2)] o
  have "cloneObject 3 clone_example Null True = Returns (Null, clone_example)" by simp
  ultimately show ?thesis using d o run by blast
qed

text \<open>A mapping that holds itself, cloned deeply, exhausts every budget.\<close>

lemma cyclic_mapping_runs_out:
  "cell h 0 = Some (Obj [(''self'', Ref 0)]) \<Longrightarrow> cloneObject n h (Ref 0) True = OutOfFuel"
proof (induction n arbitrary: h)
  case 0
  then show ?case by (rule cloneObject_deep_0)
next
  case (Suc m)
  from Suc.prems have c: "cell (h @ [Obj []]) 0 = Some (Obj [(''self'', Ref 0)])"
    by (auto simp: cell_def nth_append split: if_splits)
  then have "get_prop (h @ [Obj []]) (Ref 0) ''self'' = Ref 0" by (simp add: get_prop_cell)
  with Suc.IH [OF c] Suc.prems show ?case by (simp add: cloneObject_deep)
qed

theorem cloneObject_cyclic_mapping_never_returns:
  "isObject [Obj [(''self'', Ref 0)]] (Ref 0) \<and>
   (\<forall>n. cloneObject n [Obj [(''self'', Ref 0)]] (Ref 0) True = OutOfFuel)"
  by (simp add: cyclic_mapping_runs_out cell_def)

lemma clone_items_threaded:
  "list_all (clone_depth_le m h deep) items \<Longrightarrow>
   \<exists>items' hs. length hs = Suc (length items) \<and> hs ! 0 = h \<and>
     clone_items m h items deep = Returns (items', last hs) \<and> prefix h (last hs) \<and>
     length items' = length items \<and>
     (\<forall>i<length items. prefix h (hs ! i) \<and>
        cloneObject m (hs ! i) (items ! i) deep = Returns (items' ! i, hs ! Suc i))"
proof (induction items arbitrary: h)
  case Nil
  show ?case by (intro exI [of _ "[]"] exI [of _ "[h]"]) simp
next
  case (Cons item items)
  from Cons.prems have "clone_depth_le m h deep item" by simp
  from cloneObject_returns [OF this] obtain r h1
    where r: "cloneObject m h item deep = Returns (r, h1)" and p1: "prefix h h1" by blast
  from Cons.prems p1 have "list_all (clone_depth_le m h1 deep) items"
    by (auto simp: list_all_iff intro: clone_depth_le_prefix)
  from Cons.IH [OF this] obtain items' hs
    where hs: "length hs = Suc (length items)" "hs ! 0 = h1"
      and rest: "clone_items m h1 items deep = Returns (items', last hs)"
      and p2: "prefix h1 (last hs)" and len: "length items' = length items"
      and each: "\<And>i. i < length items \<Longrightarrow> prefix h1 (hs ! i) \<and>
        cloneObject m (hs ! i) (items ! i) deep = Returns (items' ! i, hs ! Suc i)"
    by blast
  from hs(1) have ne: "hs \<noteq> []" by auto
  have "length (h # hs) = Suc (length (item # items))" using hs(1) by simp
  moreover have "(h # hs) ! 0 = h" by simp
  moreover have "clone_items m h (item # items) deep = Returns (r # items', last (h # hs))"
    using r rest ne by simp
  moreover have "prefix h (last (h # hs))"
    using p1 p2 ne by (auto intro: prefix_order.trans)
  moreover have "length (r # items') = length (item # items)" using len by simp
  moreover have "\<forall>i<length (item # items). prefix h ((h # hs) ! i) \<and>
        cloneObject m ((h # hs) ! i) ((item # items) ! i) deep =
          Returns ((r # items') ! i, (h # hs) ! Suc i)"
  proof (intro allI impI)
    fix i assume i: "i < length (item # items)"
    show "prefix h ((h # hs) ! i) \<and>
        cloneObject m ((h # hs) ! i) ((item # items) ! i) deep =
          Returns ((r # items') ! i, (h # hs) ! Suc i)"
    proof (cases i)
      case 0
      with r hs(2) show ?thesis by simp
    next
      case (Suc j)
      with i have "j < length items" by simp
      from each [OF this] p1 Suc show ?thesis by (auto intro: prefix_order.trans)
    qed
  qed
  ultimately show ?case by blast
qed

text \<open>
  C7 says that every array is cloned. The clone follows array elements, and mapping
  properties when \<open>deep\<close> is set, without a cycle guard: when some container that it reaches
  along these paths contains itself (the array, or one nested anywhere below it), the
  nesting is endless and the call never returns. For every array whose nesting along these
  paths is finite (\<open>clone_depth_le\<close> for some \<open>n\<close>), and both values of \<open>deep\<close>, the call
  returns a new array (at an address the heap
  before the call does not hold) of the same length, whose \<open>i\<close>-th element is what
  \<open>cloneObject\<close> with the same \<open>deep\<close> returns for the \<open>i\<close>-th element of the input.
  \<open>hs ! i\<close> is the heap when the turn of the \<open>i\<close>-th element comes: the heap before the
  call, followed by the objects that the clones of the elements before it have allocated.
\<close>

theorem cloneObject_array_elementwise:
  assumes "cell h a = Some (Arr items)" and "clone_depth_le n h deep (Ref a)"
  shows "\<exists>items' hs. length hs = Suc (length items) \<and> hs ! 0 = h \<and>
           cloneObject n h (Ref a) deep =
             Returns (Ref (length (last hs)), last hs @ [Arr items']) \<and>
           cell h (length (last hs)) = None \<and>
           length items' = length items \<and>
           (\<forall>i<length items. prefix h (hs ! i) \<and>
              cloneObject (n - 1) (hs ! i) (items ! i) deep = Returns (items' ! i, hs ! Suc i))"
proof -
  from assms obtain m where n: "n = Suc m" and "list_all (clone_depth_le m h deep) items"
    by (auto split: nat.splits)
  from clone_items_threaded [OF this(2)] obtain items' hs
    where hs: "length hs = Suc (length items)" "hs ! 0 = h"
      and all: "clone_items m h items deep = Returns (items', last hs)"
      and p: "prefix h (last hs)" and len: "length items' = length items"
      and each: "\<forall>i<length items. prefix h (hs ! i) \<and>
        cloneObject m (hs ! i) (items ! i) deep = Returns (items' ! i, hs ! Suc i)"
    by blast
  from assms(1) all n have "cloneObject n h (Ref a) deep =
      Returns (Ref (length (last hs)), last hs @ [Arr items'])"
    by (simp add: cloneObject_array)
  moreover from p have "cell h (length (last hs)) = None"
    by (simp add: cell_None_iff prefix_length_le)
  ultimately show ?thesis using hs len each n by auto
qed

theorem cloneObject_array_elementwise_witness:
  "cell [Arr [Ref 1, JNum (Fin 7)], Obj [(''x'', Null)]] 0 = Some (Arr [Ref 1, JNum (Fin 7)]) \<and>
   clone_depth_le 1 [Arr [Ref 1, JNum (Fin 7)], Obj [(''x'', Null)]] False (Ref 0) \<and>
   cloneObject 1 [Arr [Ref 1, JNum (Fin 7)], Obj [(''x'', Null)]] (Ref 0) False =
     Returns (Ref 3, [Arr [Ref 1, JNum (Fin 7)], Obj [(''x'', Null)], Obj [(''x'', Null)],
                      Arr [Ref 2, JNum (Fin 7)]]) \<and>
   cloneObject 0 [Arr [Ref 1, JNum (Fin 7)], Obj [(''x'', Null)]] (Ref 1) False =
     Returns (Ref 2, [Arr [Ref 1, JNum (Fin 7)], Obj [(''x'', Null)], Obj [(''x'', Null)]]) \<and>
   (\<exists>items' hs. length hs = 3 \<and>
      cloneObject 1 [Arr [Ref 1, JNum (Fin 7)], Obj [(''x'', Null)]] (Ref 0) False =
        Returns (Ref (length (last hs)), last hs @ [Arr items']) \<and>
      length items' = 2)"
proof -
  have "cloneObject 1 [Arr [Ref 1, JNum (Fin 7)], Obj [(''x'', Null)]] (Ref 0) False =
     Returns (Ref 3, [Arr [Ref 1, JNum (Fin 7)], Obj [(''x'', Null)], Obj [(''x'', Null)],
                      Arr [Ref 2, JNum (Fin 7)]])"
    by code_simp
  moreover have "cloneObject 0 [Arr [Ref 1, JNum (Fin 7)], Obj [(''x'', Null)]] (Ref 1) False =
     Returns (Ref 2, [Arr [Ref 1, JNum (Fin 7)], Obj [(''x'', Null)], Obj [(''x'', Null)]])"
    by code_simp
  moreover have "cell [Arr [Ref 1, JNum (Fin 7)], Obj [(''x'', Null)]] 0 =
      Some (Arr [Ref 1, JNum (Fin 7)])"
    and "clone_depth_le 1 [Arr [Ref 1, JNum (Fin 7)], Obj [(''x'', Null)]] False (Ref 0)"
    by (simp_all add: cell_def)
  moreover from cloneObject_array_elementwise [OF this] obtain items' hs
    where "length hs = Suc (length [Ref 1, JNum (Fin 7)])"
      and "cloneObject 1 [Arr [Ref 1, JNum (Fin 7)], Obj [(''x'', Null)]] (Ref 0) False =
        Returns (Ref (length (last hs)), last hs @ [Arr items'])"
      and "length items' = length [Ref 1, JNum (Fin 7)]"
    by blast
  then have "length hs = 3 \<and>
      cloneObject 1 [Arr [Ref 1, JNum (Fin 7)], Obj [(''x'', Null)]] (Ref 0) False =
        Returns (Ref (length (last hs)), last hs @ [Arr items']) \<and>
      length items' = 2"
    by simp
  then have "\<exists>items' hs. length hs = 3 \<and>
      cloneObject 1 [Arr [Ref 1, JNum (Fin 7)], Obj [(''x'', Null)]] (Ref 0) False =
        Returns (Ref (length (last hs)), last hs @ [Arr items']) \<and>
      length items' = 2"
    by blast
  ultimately show ?thesis by blast
qed

text \<open>An array that holds itself exhausts every budget, already with \<open>deep\<close> unset.\<close>

theorem cloneObject_cyclic_array_never_returns:
  "isArray [Arr [Ref 0]] (Ref 0) \<and>
   (\<forall>n. cloneObject n [Arr [Ref 0]] (Ref 0) False = OutOfFuel)"
proof -
  have c: "cell [Arr [Ref 0]] 0 = Some (Arr [Ref 0])" by (simp add: cell_def)
  have "cloneObject n [Arr [Ref 0]] (Ref 0) False = OutOfFuel" for n
  proof (induction n)
    case 0
    from c show ?case by (rule cloneObject_array_0)
  next
    case (Suc m)
    with c show ?case by (simp add: cloneObject_array)
  qed
  with c show ?thesis by simp
qed

subsection \<open>deepMergeObject: absent arguments and arrays\<close>

text \<open>
  C1 says that \<open>deepMergeObject(target, undefined)\<close> returns \<open>target\<close> for every value
  \<open>target\<close>. The code returns \<^verbatim>\<open>target || source\<close>, so a target that is defined but
  falsy (\<open>0\<close>, \<open>false\<close>, the empty string, \<open>null\<close>) is lost: the call returns
  \<^verbatim>\<open>undefined\<close>.
\<close>

theorem deepMergeObject_falsy_target_lost:
  "deepMergeObject n h (JNum (Fin 0)) Undefined = Returns (Undefined, h) \<and>
   deepMergeObject n h (JBool False) Undefined = Returns (Undefined, h) \<and>
   deepMergeObject n h (JStr []) Undefined = Returns (Undefined, h) \<and>
   deepMergeObject n h Null Undefined = Returns (Undefined, h)"
  by (simp add: deepMergeObject.simps)

text \<open>A truthy target is returned itself, and so is \<^verbatim>\<open>undefined\<close> when both are absent.\<close>

lemma deepMergeObject_undefined_source:
  "truthy target \<Longrightarrow> deepMergeObject n h target Undefined = Returns (target, h)"
  by (simp add: deepMergeObject.simps)

lemma deepMergeObject_both_undefined:
  "deepMergeObject n h Undefined Undefined = Returns (Undefined, h)"
  by (simp add: deepMergeObject.simps)

text \<open>
  C9. When target and source are both arrays, \<open>deepMergeObject\<close> returns a newly allocated
  array (its address is not one of the heap before the call) that holds the target's
  elements followed by the source's; the heap is only extended by it, so the target array
  and the source array are as they were.
\<close>

theorem deepMergeObject_arrays_concat:
  assumes "cell h t = Some (Arr ts)" and "cell h s = Some (Arr ss)"
  shows "deepMergeObject n h (Ref t) (Ref s) = Returns (Ref (length h), h @ [Arr (ts @ ss)]) \<and>
         cell h (length h) = None \<and>
         cell (h @ [Arr (ts @ ss)]) (length h) = Some (Arr (ts @ ss)) \<and>
         cell (h @ [Arr (ts @ ss)]) t = Some (Arr ts) \<and>
         cell (h @ [Arr (ts @ ss)]) s = Some (Arr ss)"
  using assms
  by (auto simp: deepMergeObject.simps cell_def alloc_def nth_append split: if_splits)

theorem deepMergeObject_arrays_concat_witness:
  "deepMergeObject 0 [Arr [JNum (Fin 1), JNum (Fin 2)], Arr [JNum (Fin 3)]] (Ref 0) (Ref 1) =
     Returns (Ref 2, [Arr [JNum (Fin 1), JNum (Fin 2)], Arr [JNum (Fin 3)],
                      Arr [JNum (Fin 1), JNum (Fin 2), JNum (Fin 3)]])"
  using deepMergeObject_arrays_concat [of "[Arr [JNum (Fin 1), JNum (Fin 2)], Arr [JNum (Fin 3)]]" 0 "[JNum (Fin 1), JNum (Fin 2)]" 1 "[JNum (Fin 3)]" 0]
  by (simp add: cell_def)

subsection \<open>random\<close>

lemma floor_rat_numeral:
  "\<lfloor>numeral a / numeral b :: rat\<rfloor> = numeral a div numeral b"
  using floor_divide_of_int_eq [of "numeral a" "numeral b", where ?'a = rat] by simp

lemma overflow_Fin: "\<bar>x\<bar> < overflow_bound \<Longrightarrow> overflow x = Fin x"
  by (auto simp: overflow_def)

text \<open>The same function, with the small numbers of the examples decided first.\<close>

lemma overflow_small [code]:
  "overflow x =
     (if - 1024 \<le> x \<and> x \<le> 1024 then Fin x
      else if overflow_bound \<le> x then PosInf
      else if x \<le> - overflow_bound then NegInf else Fin x)"
  by (simp add: overflow_def overflow_bound_def)

lemma overflow_bound_large: "2 ^ 64 < overflow_bound"
  by (simp add: overflow_bound_def)

lemma floor_scaled_draw:
  fixes r :: rat and n :: int
  assumes "0 \<le> r" "r < 1" "0 < n"
  shows "0 \<le> \<lfloor>r * of_int n\<rfloor> \<and> \<lfloor>r * of_int n\<rfloor> \<le> n - 1"
proof -
  have "0 \<le> r * of_int n" using assms by simp
  moreover have "r * of_int n < of_int n" using assms by simp
  then have "\<lfloor>r * of_int n\<rfloor> < n" by (simp add: floor_less_iff)
  ultimately show ?thesis by simp
qed

text \<open>
  The integer branch on integer bounds, when neither the bounds nor the width of the range
  overflow: every intermediate result is finite.
\<close>

lemma random_int_args:
  assumes fl: "floating = Undefined \<or> floating = JBool False" and le: "lower \<le> upper"
    and d: "0 \<le> rand d" "rand d < 1"
    and lo: "\<bar>of_int lower\<bar> < overflow_bound" and hi: "\<bar>of_int upper\<bar> < overflow_bound"
    and w: "of_int (upper - lower + 1) < overflow_bound"
  shows "random (JNum (Fin (of_int lower))) (JNum (Fin (of_int upper))) floating d =
     Returns (Fin (of_int (lower + \<lfloor>rand d * of_int (upper - lower + 1)\<rfloor>)))"
proof -
  define k where "k = \<lfloor>rand d * of_int (upper - lower + 1)\<rfloor>"
  from le have pos: "0 < upper - lower + 1" by simp
  from floor_scaled_draw [OF d pos] have k: "0 \<le> k" "k \<le> upper - lower"
    by (simp_all add: k_def)
  have sub: "js_sub (Fin (of_int upper)) (Fin (of_int lower)) = Fin (of_int (upper - lower))"
    using le w by (simp add: overflow_Fin)
  have add1: "js_add (Fin (of_int (upper - lower))) (Fin 1) = Fin (of_int (upper - lower + 1))"
    using le w by (simp add: overflow_Fin)
  have "0 \<le> rand d * of_int (upper - lower + 1)" using d(1) pos by simp
  moreover have "rand d * of_int (upper - lower + 1) < of_int (upper - lower + 1)"
    using d(2) pos by simp
  ultimately have "\<bar>rand d * of_int (upper - lower + 1)\<bar> < overflow_bound"
    using w by linarith
  then have mul: "js_mul (Fin (rand d)) (Fin (of_int (upper - lower + 1))) =
      Fin (rand d * of_int (upper - lower + 1))"
    by (simp add: overflow_Fin)
  have "(of_int lower :: rat) \<le> of_int (lower + k)" "(of_int (lower + k) :: rat) \<le> of_int upper"
    using k by (simp_all del: of_int_add)
  then have "\<bar>of_int (lower + k) :: rat\<bar> < overflow_bound" using lo hi by linarith
  then have add2: "js_add (Fin (of_int lower)) (Fin (of_int k)) = Fin (of_int (lower + k))"
    by (simp add: overflow_Fin)
  have "random_range (Fin (of_int lower)) (Fin (of_int upper)) False d = Fin (of_int (lower + k))"
    using le sub add1 mul add2 by (simp add: random_range_def k_def)
  with fl show ?thesis unfolding k_def by (auto simp: random_def random_args_def)
qed

text \<open>
  C2 says that every supplied non-boolean \<open>floating\<close> makes \<open>random\<close> discard
  \<open>floating\<close> and \<open>upper\<close>. The guard is \<^verbatim>\<open>floating && typeof floating !== 'boolean'\<close>,
  so it holds for the truthy ones: then the parameters after the argument shuffling, and
  so the result, are those of \<open>random(lower)\<close>.
\<close>

theorem random_nonboolean_floating:
  assumes "truthy floating" and "\<not> is_boolean floating"
  shows "random_args lower upper floating = random_args lower Undefined Undefined \<and>
         random lower upper floating d = random lower Undefined Undefined d"
  using assms by (simp add: random_def random_args_def)

theorem random_nonboolean_floating_witness:
  "truthy (JStr ''x'') \<and> \<not> is_boolean (JStr ''x'') \<and>
   random (JNum (Fin 1)) (JNum (Fin 9)) (JStr ''x'') draw_half =
     random (JNum (Fin 1)) Undefined Undefined draw_half \<and>
   random (JNum (Fin 1)) Undefined Undefined draw_half = Returns (Fin 1)"
  using random_nonboolean_floating [of "JStr ''x''" "JNum (Fin 1)" "JNum (Fin 9)" draw_half]
  by (simp add: random_def random_args_def random_range_def floor_rat_numeral draw_half_def
      overflow_def overflow_bound_def)

text \<open>
  A falsy non-boolean \<open>floating\<close> is kept: \<open>random(1, 9, 0)\<close> ranges over 1 to 9 (5 for
  the draw 1/2), where \<open>random(1)\<close> ranges over 0 to 1 (1 for that draw).
\<close>

theorem random_falsy_floating_kept:
  "\<not> is_boolean (JNum (Fin 0)) \<and>
   random (JNum (Fin 1)) (JNum (Fin 9)) (JNum (Fin 0)) draw_half = Returns (Fin 5) \<and>
   random (JNum (Fin 1)) Undefined Undefined draw_half = Returns (Fin 1)"
  by (simp add: random_def random_args_def random_range_def floor_rat_numeral draw_half_def
      overflow_def overflow_bound_def)

text \<open>
  C5 says that \<open>random(lower, upper)\<close> is an integer between the bounds for all integers
  \<open>lower \<le> upper\<close>. The bounds are doubles, and the width \<open>upper - lower + 1\<close> of a
  range of doubles can exceed every double: it is then the infinity, and so is the result.
  For integers \<open>lower \<le> upper\<close> in the range of doubles whose width is in that range as
  well, with \<open>floating\<close> unset or \<open>false\<close>, and for every draw from the unit interval,
  \<open>random(lower, upper)\<close> returns an integer between \<open>lower\<close> and \<open>upper\<close>, both
  included; \<open>random(5, 5)\<close> is 5 and \<open>random(0, 10)\<close> is an integer from 0 to 10.
\<close>

theorem random_integer_range:
  assumes "0 \<le> rand d" and "rand d < 1" and "lower \<le> upper"
    and "in_double_range lower" and "in_double_range upper"
    and "in_double_range (upper - lower + 1)"
    and "floating = Undefined \<or> floating = JBool False"
  shows "(\<exists>k. random (JNum (Fin (of_int lower))) (JNum (Fin (of_int upper))) floating d =
              Returns (Fin (of_int k)) \<and> lower \<le> k \<and> k \<le> upper) \<and>
         random (JNum (Fin 5)) (JNum (Fin 5)) floating d = Returns (Fin 5) \<and>
         (\<exists>k. random (JNum (Fin 0)) (JNum (Fin 10)) floating d = Returns (Fin (of_int k)) \<and>
              0 \<le> k \<and> k \<le> 10)"
proof -
  have range: "\<exists>k. random (JNum (Fin (of_int lo))) (JNum (Fin (of_int hi))) floating d =
                 Returns (Fin (of_int k)) \<and> lo \<le> k \<and> k \<le> hi"
    if "lo \<le> hi" "in_double_range lo" "in_double_range hi" "in_double_range (hi - lo + 1)"
    for lo hi :: int
  proof -
    from that have "0 < hi - lo + 1" by simp
    from floor_scaled_draw [OF assms(1,2) this]
    have "lo \<le> lo + \<lfloor>rand d * of_int (hi - lo + 1)\<rfloor>"
      and "lo + \<lfloor>rand d * of_int (hi - lo + 1)\<rfloor> \<le> hi" by simp_all
    moreover from that have "\<bar>of_int lo :: rat\<bar> < overflow_bound"
      "\<bar>of_int hi :: rat\<bar> < overflow_bound" "(of_int (hi - lo + 1) :: rat) < overflow_bound"
      by (simp_all add: in_double_range_def)
    from random_int_args [OF assms(7) that(1) assms(1,2) this]
    have "random (JNum (Fin (of_int lo))) (JNum (Fin (of_int hi))) floating d =
      Returns (Fin (of_int (lo + \<lfloor>rand d * of_int (hi - lo + 1)\<rfloor>)))" .
    ultimately show ?thesis by blast
  qed
  have small: "in_double_range k" if "\<bar>k\<bar> \<le> 11" for k
  proof -
    from that have "\<bar>of_int k :: rat\<bar> \<le> 11" by (metis of_int_abs of_int_le_iff of_int_numeral)
    with overflow_bound_large show ?thesis by (simp add: in_double_range_def)
  qed
  from range [of 5 5] small have five:
    "random (JNum (Fin 5)) (JNum (Fin 5)) floating d = Returns (Fin 5)"
    by auto
  from range [of 0 10] small have ten: "\<exists>k. random (JNum (Fin 0)) (JNum (Fin 10)) floating d =
      Returns (Fin (of_int k)) \<and> 0 \<le> k \<and> k \<le> 10" by simp
  from range [OF assms(3-6)] five ten show ?thesis by blast
qed

theorem random_integer_range_witness:
  "0 \<le> rand draw_half \<and> rand draw_half < 1 \<and> (0::int) \<le> 10 \<and>
   in_double_range 0 \<and> in_double_range 10 \<and> in_double_range (10 - 0 + 1) \<and>
   random (JNum (Fin 0)) (JNum (Fin 10)) Undefined draw_half = Returns (Fin 5) \<and>
   random (JNum (Fin 5)) (JNum (Fin 5)) Undefined draw_half = Returns (Fin 5) \<and>
   (\<exists>k. random (JNum (Fin 0)) (JNum (Fin 10)) Undefined draw_half = Returns (Fin (of_int k)) \<and>
      0 \<le> k \<and> k \<le> 10)"
proof -
  have d: "0 \<le> rand draw_half" "rand draw_half < 1" by (simp_all add: draw_half_def)
  have r: "in_double_range 0" "in_double_range 10" "in_double_range (10 - 0 + 1)"
    by (simp_all add: in_double_range_def overflow_bound_def)
  have run: "random (JNum (Fin 0)) (JNum (Fin 10)) Undefined draw_half = Returns (Fin 5)"
    by code_simp
  from random_integer_range [OF d _ r, of Undefined] d r run show ?thesis by simp
qed

text \<open>
  The doubles \<open>- 2 ^ 1023\<close> and \<open>2 ^ 1023\<close> are integers, and in this order. Their
  difference \<open>2 ^ 1024\<close> overflows: \<^verbatim>\<open>random(-(2 ** 1023), 2 ** 1023)\<close> takes the
  integer branch and returns \<^verbatim>\<open>Infinity\<close> for the draw 1/2, which is no integer between
  the bounds.
\<close>

theorem random_wide_range_overflows:
  "(- (2 ^ 1023) :: rat) \<le> 2 ^ 1023 \<and>
   js_mod1 (Fin (- (2 ^ 1023))) = Fin 0 \<and> js_mod1 (Fin (2 ^ 1023)) = Fin 0 \<and>
   random (JNum (Fin (- (2 ^ 1023)))) (JNum (Fin (2 ^ 1023))) Undefined draw_half =
     Returns PosInf"
  by (simp add: random_def random_args_def random_range_def draw_half_def
      overflow_def overflow_bound_def)

subsection \<open>createUUID\<close>

lemma toString16_digit: "n < 16 \<Longrightarrow> toString16 n = [''0123456789abcdef'' ! n]"
  by (simp add: toString16.simps)

lemma and3_le: "(3::nat) AND e \<le> 3"
  by (metis AND_upper2 and.commute neg_le_0_iff_le negative_zle_0
    of_nat_and_eq of_nat_le_iff)

lemma variant_nibble: "((3::nat) AND e) OR 8 \<in> {8, 9, 10, 11}"
proof -
  define k where "k = (3::nat) AND e"
  have "k \<le> 3" unfolding k_def by (rule and3_le)
  then have "k = 0 \<or> k = 1 \<or> k = 2 \<or> k = 3" by arith
  then have "k OR 8 \<in> {8, 9, 10, 11}" by (elim disjE; hypsubst; code_simp)
  then show ?thesis by (simp only: k_def)
qed

lemma uuid_digit_x: "\<exists>c. uuid_digit (CHR ''x'') b = [c] \<and> c \<in> set hex"
proof -
  have "''0123456789abcdef'' ! (unat b mod 16) \<in> set ''0123456789abcdef''"
    by (rule nth_mem) simp
  then show ?thesis
    unfolding uuid_digit_def Let_def hex_def
    by (simp del: set_simps add: toString16_digit)
qed

lemma uuid_digit_y: "\<exists>c. uuid_digit (CHR ''y'') b = [c] \<and> c \<in> set ''89ab''"
proof -
  from variant_nibble [of "unat b mod 16"] show ?thesis
    unfolding uuid_digit_def Let_def 
    by (elim insertE emptyE) (simp_all add: toString16_digit)
qed

lemma replace_xy_classes:
  "list_all2 (\<lambda>c cls. c \<in> set cls) (fst (replace_xy template src)) (map class_of template)"
proof (induction template arbitrary: src)
  case Nil
  show ?case by simp
next
  case (Cons t ts)
  show ?case
  proof (cases "t = CHR ''x''")
    case True
    obtain c where "uuid_digit (CHR ''x'') (src 0) = [c]" "c \<in> set hex"
      using uuid_digit_x by blast
    with True Cons [of "\<lambda>i. src (Suc i)"] show ?thesis
      by (simp add: randomBytes1_def case_prod_beta)
  next
    case False
    note notx = this
    show ?thesis
    proof (cases "t = CHR ''y''")
      case True
      obtain c where "uuid_digit (CHR ''y'') (src 0) = [c]" "c \<in> set ''89ab''"
        using uuid_digit_y by blast
      with True Cons [of "\<lambda>i. src (Suc i)"] show ?thesis
        by (simp add: randomBytes1_def case_prod_beta)
    next
      case False
      with notx Cons [of src] show ?thesis
        by (simp add: case_prod_beta)
    qed
  qed
qed

lemma uuid_pattern_template:
  "uuid_pattern = map class_of ''xxxxxxxx-xxxx-4xxx-yxxx-xxxxxxxxxxxx''"
  by (simp add: uuid_pattern_def eval_nat_numeral)

text \<open>
  C4. Whatever bytes the strong source hands out, the string \<open>createUUID\<close> returns
  matches the pattern: it has 36 characters in the 8-4-4-4-12 layout with hyphens, the
  version digit is 4 and the variant digit is one of 8, 9, a, b.
\<close>

theorem createUUID_matches_pattern:
  "matches (fst (createUUID src)) uuid_pattern \<and> length (fst (createUUID src)) = 36"
proof -
  have m: "matches (fst (createUUID src)) uuid_pattern"
    unfolding matches_def createUUID_def uuid_pattern_template by (rule replace_xy_classes)
  then have "length (fst (createUUID src)) = length uuid_pattern"
    unfolding matches_def by (rule list_all2_lengthD)
  also have "\<dots> = 36" by (simp add: uuid_pattern_def)
  finally show ?thesis using m by simp
qed

text \<open>For instance, with the bytes 0, 37, 74, ...:\<close>

lemma createUUID_example:
  "fst (createUUID (\<lambda>i. of_nat (37 * i))) = ''05af49e3-8d27-4c16-b05a-f49e38d27c16''"
  by code_simp

subsection \<open>getVisitId\<close>

lemma unit_draws_next: "unit_draws g \<Longrightarrow> unit_draws (snd (Math_random g))"
  by (simp add: unit_draws_def Math_random_def)

lemma unit_draws_head:
  "unit_draws g \<Longrightarrow> 0 \<le> rand (fst (Math_random g)) \<and> rand (fst (Math_random g)) < 1"
  by (simp add: unit_draws_def Math_random_def)

lemma random_single_bound:
  assumes "0 \<le> n" and "n \<le> 100" and "0 \<le> rand d" and "rand d < 1"
  shows "random (JNum (Fin (of_int n))) Undefined Undefined d =
           Returns (Fin (of_int \<lfloor>rand d * of_int (n + 1)\<rfloor>))"
proof -
  from assms(1,2) have "\<bar>of_int n :: rat\<bar> \<le> 100" "(of_int (n - 0 + 1) :: rat) \<le> 101"
    by (simp_all del: of_int_add)
  with overflow_bound_large
  have "\<bar>of_int n :: rat\<bar> < overflow_bound" "(of_int (n - 0 + 1) :: rat) < overflow_bound"
    by simp_all
  moreover have "\<bar>of_int 0 :: rat\<bar> < overflow_bound" using overflow_bound_large by simp
  ultimately have "random (JNum (Fin (of_int 0))) (JNum (Fin (of_int n))) Undefined d =
      Returns (Fin (of_int (0 + \<lfloor>rand d * of_int (n - 0 + 1)\<rfloor>)))"
    using assms by (intro random_int_args) simp_all
  moreover have "random (JNum (Fin (of_int n))) Undefined Undefined d =
      random (JNum (Fin (of_int 0))) (JNum (Fin (of_int n))) Undefined d"
    by (simp add: random_def random_args_def)
  ultimately show ?thesis by simp
qed

lemma getRandomItem_chars:
  assumes "0 \<le> rand d" "rand d < 1"
  shows "\<exists>c. getRandomItem chars d = Returns (Some c) \<and> c \<in> set chars"
proof -
  define k where "k = \<lfloor>rand d * of_int 62\<rfloor>"
  have k: "0 \<le> k" "k \<le> 61"
    using floor_scaled_draw [OF assms, of 62] by (simp_all add: k_def)
  have len: "length chars = 62" by (simp add: chars_def)
  have "random (JNum (Fin (of_nat (length chars) - 1))) Undefined Undefined d = Returns (Fin (of_int k))"
    using random_single_bound [of 61 d] assms by (simp add: len k_def)
  moreover have "char_at chars (Fin (of_int k)) = Some (chars ! nat k)"
    using k by (simp add: len)
  moreover have "chars ! nat k \<in> set chars"
    using k by (intro nth_mem) (simp add: len)
  ultimately show ?thesis by (simp add: getRandomItem_def)
qed

lemma randomString_loop_chars:
  "unit_draws g \<Longrightarrow>
   \<exists>res g'. randomString_loop i len acc g = (Returns res, g') \<and>
     length res = length acc + nat (len - i) \<and> set res \<subseteq> set acc \<union> set chars \<and> unit_draws g'"
proof (induction i len acc g rule: randomString_loop.induct)
  case (1 i len result g)
  show ?case
  proof (cases "i < len")
    case False
    with "1.prems" show ?thesis by simp
  next
    case True
    obtain d g1 where dg: "Math_random g = (d, g1)" by (cases "Math_random g")
    with "1.prems" have d: "0 \<le> rand d" "rand d < 1" and g1: "unit_draws g1"
      using unit_draws_head [of g] unit_draws_next [of g] by simp_all
    from getRandomItem_chars [OF d] obtain c
      where c: "getRandomItem chars d = Returns (Some c)" "c \<in> set chars" by blast
    from "1.IH" [OF True dg [symmetric] c(1) g1]
    obtain res g' where r: "randomString_loop (i + 1) len (result @ [c]) g1 = (Returns res, g')"
      "length res = length (result @ [c]) + nat (len - (i + 1))"
      "set res \<subseteq> set (result @ [c]) \<union> set chars" "unit_draws g'"
      by auto
    have "randomString_loop i len result g = (Returns res, g')"
      using True dg c(1) r(1) by (subst randomString_loop.simps) simp
    moreover have "length res = length result + nat (len - i)" using r(2) True by simp
    moreover have "set res \<subseteq> set result \<union> set chars" using r(3) c(2) by auto
    ultimately show ?thesis using r(4) by blast
  qed
qed

lemma toLowerCase_length: "length (toLowerCase s) = length s"
  by (simp add: toLowerCase_def)

lemma toLowerCase_chars: "c \<in> set chars \<Longrightarrow> hd (toLowerCase [c]) \<in> set lower_alnum"
  unfolding chars_def set_simps
  by (elim insertE emptyE; hypsubst; code_simp)

lemma toLowerCase_subset:
  assumes "set s \<subseteq> set chars"
  shows "set (toLowerCase s) \<subseteq> set lower_alnum"
proof
  fix c assume "c \<in> set (toLowerCase s)"
  then obtain c0 where c0: "c0 \<in> set s" "c = hd (toLowerCase [c0])"
    by (auto simp: toLowerCase_def)
  with assms toLowerCase_chars [of c0] show "c \<in> set lower_alnum" by auto
qed

lemma randomString_10_lower:
  assumes "unit_draws g"
  shows "\<exists>s g'. randomString 10 True g = (Returns s, g') \<and> length s = 10 \<and>
           set s \<subseteq> set lower_alnum"
proof -
  from randomString_loop_chars [OF assms, of 0 10 "[]"]
  obtain res g' where r: "randomString_loop 0 10 [] g = (Returns res, g')"
    "length res = 10" "set res \<subseteq> set chars" by auto
  then have "randomString 10 True g = (Returns (toLowerCase res), g')"
    by (simp add: randomString_def)
  with r toLowerCase_subset [of res] toLowerCase_length [of res] show ?thesis by simp
qed

lemma digit_cases:
  "(1::int) \<le> k \<Longrightarrow> k \<le> 9 \<Longrightarrow>
   k = 1 \<or> k = 2 \<or> k = 3 \<or> k = 4 \<or> k = 5 \<or> k = 6 \<or> k = 7 \<or> k = 8 \<or> k = 9"
  by arith

lemma num_to_string_digit:
  assumes "1 \<le> k" "k \<le> 9"
  shows "\<exists>c. num_to_string (Fin (of_int k)) = Some [c] \<and> c \<in> set ''123456789''"
  using digit_cases [OF assms] by (elim disjE) (simp_all add: digits10.simps)

text \<open>
  C8. Whatever the general-purpose generator draws (each draw in the unit interval),
  \<open>getVisitId\<close> returns a string of length 12 whose first character is a digit from 1 to
  9, whose next ten characters are lowercase letters or digits, and whose last character
  is the digit 0.
\<close>

theorem getVisitId_layout:
  assumes "\<forall>i. 0 \<le> rand (g i) \<and> rand (g i) < 1"
  shows "\<exists>s g'. getVisitId g = (Returns s, g') \<and> length s = 12 \<and>
           s ! 0 \<in> set ''123456789'' \<and>
           set (take 10 (drop 1 s)) \<subseteq> set ''0123456789abcdefghijklmnopqrstuvwxyz'' \<and>
           s ! 11 = CHR ''0''"
proof -
  from assms have g: "unit_draws g" by (simp add: unit_draws_def)
  obtain d g1 where dg: "Math_random g = (d, g1)" by (cases "Math_random g")
  with g have d: "0 \<le> rand d" "rand d < 1" and g1: "unit_draws g1"
    using unit_draws_head [of g] unit_draws_next [of g] by simp_all
  define k where "k = 1 + \<lfloor>rand d * of_int 9\<rfloor>"
  have k: "1 \<le> k" "k \<le> 9" using floor_scaled_draw [OF d, of 9] by (simp_all add: k_def)
  have "\<bar>of_int 1 :: rat\<bar> < overflow_bound" "\<bar>of_int 9 :: rat\<bar> < overflow_bound"
    "(of_int (9 - 1 + 1) :: rat) < overflow_bound"
    using overflow_bound_large by simp_all
  from random_int_args [OF _ _ d this, of Undefined]
  have num: "random (JNum (Fin 1)) (JNum (Fin 9)) Undefined d = Returns (Fin (of_int k))"
    by (simp add: k_def)
  from num_to_string_digit [OF k] obtain c
    where c: "num_to_string (Fin (of_int k)) = Some [c]" "c \<in> set ''123456789''" by blast
  from randomString_10_lower [OF g1] obtain str g2
    where str: "randomString 10 True g1 = (Returns str, g2)" "length str = 10"
      "set str \<subseteq> set lower_alnum" by blast
  have "getVisitId g = (Returns ([c] @ str @ ''0''), g2)"
    by (simp add: getVisitId_def dg num str(1) c(1) del: num_to_string.simps)
  moreover have "length ([c] @ str @ ''0'') = 12" using str(2) by simp
  moreover have "([c] @ str @ ''0'') ! 0 = c" by simp
  moreover have "take 10 (drop 1 ([c] @ str @ ''0'')) = str" using str(2) by simp
  moreover have "([c] @ str @ ''0'') ! 11 = CHR ''0''" using str(2) by (simp add: nth_append)
  ultimately show ?thesis using c(2) str(3) unfolding lower_alnum_def by metis
qed

lemma cycling_draws_unit: "\<forall>i. 0 \<le> rand (cycling_draws i) \<and> rand (cycling_draws i) < 1"
proof
  fix i :: nat
  have "i mod 8 < 8" by simp
  then have "(of_nat (i mod 8) :: rat) < 8" by (metis of_nat_less_iff of_nat_numeral)
  then show "0 \<le> rand (cycling_draws i) \<and> rand (cycling_draws i) < 1"
    by (simp add: cycling_draws_def)
qed

theorem getVisitId_layout_witness:
  "(\<forall>i. 0 \<le> rand (cycling_draws i) \<and> rand (cycling_draws i) < 1) \<and>
   fst (getVisitId cycling_draws) = Returns ''18fnvcks18f0'' \<and>
   (\<exists>s g'. getVisitId cycling_draws = (Returns s, g') \<and> length s = 12 \<and>
      s ! 0 \<in> set ''123456789'' \<and>
      set (take 10 (drop 1 s)) \<subseteq> set ''0123456789abcdefghijklmnopqrstuvwxyz'' \<and>
      s ! 11 = CHR ''0'')"
proof -
  have run: "fst (getVisitId cycling_draws) = Returns ''18fnvcks18f0''" by code_simp
  from cycling_draws_unit getVisitId_layout [OF cycling_draws_unit] run show ?thesis by blast
qed

subsection \<open>deepMergeObject: mappings\<close>

lemma skeleton_Suc_mapping:
  "cell h a = Some (Obj props) \<Longrightarrow>
   skeleton (Suc m) h (Ref a) = a # concat (map (\<lambda>p. skeleton m h (snd p)) props)"
  by simp











lemma is_mapping_cell: "cell h a = Some (Obj props) \<Longrightarrow> is_mapping h (Ref a)"
  by (simp add: is_mapping_def)




lemma deepMergeObject_mappings_0:
  "cell h ta = Some (Obj tp) \<Longrightarrow> cell h sa = Some (Obj sp) \<Longrightarrow>
   deepMergeObject 0 h (Ref ta) (Ref sa) = OutOfFuel"
  by (simp add: deepMergeObject.simps)





lemma mframe_mono: "mframe F' h h' \<Longrightarrow> F' \<subseteq> F \<Longrightarrow> mframe F h h'"
  unfolding mframe_def by auto





















end
